theory Spec2Isabelle
  imports Main
begin

section \<open>JavaScript values used by the feed cursor\<close>

text \<open>
  The cursor lives in \<^verbatim>\<open>useGitHub\<close> (hooks) and \<^verbatim>\<open>fetchRepositoriesPage\<close> (lib/github.ts).
  A JavaScript string is a \<open>string\<close> (code units below 256; every string the program
  builds is ASCII). A JavaScript number that the cursor handles (page numbers, page
  totals, result counts) is an \<open>int\<close>.

  A plain JavaScript object is the list of its properties in insertion order, which is
  the order in which \<^verbatim>\<open>JSON.stringify\<close> and object spread enumerate them. Property names
  of one object are pairwise different, and none of the objects of the program has a
  property named by an array index (those would be enumerated first, in numeric order).
\<close>

fun obj_set :: "(string \<times> 'v) list \<Rightarrow> string \<Rightarrow> 'v \<Rightarrow> (string \<times> 'v) list" where
  \<comment> \<open>\<^verbatim>\<open>o[k] = v\<close>: an existing property keeps its position, a new one goes last.\<close>
  "obj_set [] k v = [(k, v)]"
| "obj_set ((k', v') # ps) k v =
     (if k' = k then (k, v) # ps else (k', v') # obj_set ps k v)"

definition obj_get :: "(string \<times> 'v) list \<Rightarrow> string \<Rightarrow> 'v option" where
  \<comment> \<open>\<^verbatim>\<open>o[k]\<close>; \<open>None\<close> is \<^verbatim>\<open>undefined\<close> (no such property).\<close>
  "obj_get ps k = map_of ps k"

text \<open>
  \<^verbatim>\<open>type SearchCriteria = { stars: string; language?: string; created?: string }\<close>.
  The canonical key of a criteria is \<^verbatim>\<open>JSON.stringify(criteria)\<close>, whose text follows the
  insertion order of the properties, so a criteria is modelled as the object it is at run
  time: its properties in insertion order, \<open>None\<close> for a property that is present with
  the value \<^verbatim>\<open>undefined\<close> (as \<^verbatim>\<open>language: language || undefined\<close> produces).
\<close>

type_synonym search_criteria = "(string \<times> string option) list"

record page_param =
  criteria :: search_criteria
  page :: int

definition PER_PAGE :: int where
  "PER_PAGE = 10"

definition MAX_PAGES :: int where
  "MAX_PAGES = 100"

subsection \<open>\<^verbatim>\<open>JSON.stringify\<close> of a criteria\<close>

definition hex_digit :: "nat \<Rightarrow> char" where
  "hex_digit n = ''0123456789abcdef'' ! n"

definition escape_char :: "char \<Rightarrow> string" where
  \<comment> \<open>QuoteJSONString, one code unit: the two-character escapes, \<^verbatim>\<open>\u00XX\<close> for the other
      control characters, the character itself otherwise. \<open>CHR 0x5C\<close> is the backslash and
      \<open>CHR 0x22\<close> the double quote.\<close>
  "escape_char c =
     (let n = (of_char c :: nat) in
      if n = 0x22 then [CHR 0x5C, CHR 0x22]
      else if n = 0x5C then [CHR 0x5C, CHR 0x5C]
      else if n = 0x08 then [CHR 0x5C, CHR ''b'']
      else if n = 0x09 then [CHR 0x5C, CHR ''t'']
      else if n = 0x0A then [CHR 0x5C, CHR ''n'']
      else if n = 0x0C then [CHR 0x5C, CHR ''f'']
      else if n = 0x0D then [CHR 0x5C, CHR ''r'']
      else if n < 0x20 then
        [CHR 0x5C, CHR ''u'', CHR ''0'', CHR ''0'', hex_digit (n div 16), hex_digit (n mod 16)]
      else [c])"

definition quote :: "string \<Rightarrow> string" where
  "quote s = CHR 0x22 # concat (map escape_char s) @ [CHR 0x22]"

definition defined_props :: "search_criteria \<Rightarrow> (string \<times> string) list" where
  \<comment> \<open>\<^verbatim>\<open>JSON.stringify\<close> skips a property whose value is \<^verbatim>\<open>undefined\<close>.\<close>
  "defined_props c = concat (map (\<lambda>(k, v). case v of None \<Rightarrow> [] | Some s \<Rightarrow> [(k, s)]) c)"

definition member_text :: "string \<times> string \<Rightarrow> string" where
  "member_text m = quote (fst m) @ '':'' @ quote (snd m)"

fun members_text :: "(string \<times> string) list \<Rightarrow> string" where
  "members_text [] = []"
| "members_text [m] = member_text m"
| "members_text (m # m' # ms) = member_text m @ '','' @ members_text (m' # ms)"

definition JSON_stringify_criteria :: "search_criteria \<Rightarrow> string" where
  \<comment> \<open>\<^verbatim>\<open>JSON.stringify(criteria)\<close>, lines 236, 251 and 292.\<close>
  "JSON_stringify_criteria c = ''{'' @ members_text (defined_props c) @ ''}''"

section \<open>Errors\<close>

text \<open>
  Modelled from the spec: the classes \<^verbatim>\<open>RateLimitExceededError\<close>, \<^verbatim>\<open>OnlyFirst1000ResultsError\<close>
  and \<^verbatim>\<open>InvalidTokenError\<close> of \<^verbatim>\<open>./errors\<close> are not among the sources. They are taken to be
  subclasses of \<^verbatim>\<open>Error\<close> that keep the message given to the constructor, which is what the
  error taxonomy of the specification describes. \<open>PlainError\<close> is \<^verbatim>\<open>new Error(..)\<close>;
  \<open>TypeError\<close> and \<open>SyntaxError\<close> are raised by the platform.
\<close>

datatype error_class =
  PlainError | RateLimitExceededError | OnlyFirst1000ResultsError | InvalidTokenError
  | TypeError | SyntaxError

datatype thrown =
  ErrorObj error_class string  \<comment> \<open>an instance of \<^verbatim>\<open>Error\<close>: its class and its \<^verbatim>\<open>message\<close>\<close>
  | NonError                   \<comment> \<open>a thrown value for which \<^verbatim>\<open>instanceof Error\<close> is false\<close>

fun is_prefix :: "string \<Rightarrow> string \<Rightarrow> bool" where
  "is_prefix [] s = True"
| "is_prefix (c # t) [] = False"
| "is_prefix (c # t) (d # s) = (c = d \<and> is_prefix t s)"

fun str_includes :: "string \<Rightarrow> string \<Rightarrow> bool" where
  \<comment> \<open>\<^verbatim>\<open>s.includes(t)\<close>: \<open>t\<close> occurs in \<open>s\<close> as a contiguous substring.\<close>
  "str_includes [] t = (t = [])"
| "str_includes (c # s) t = (is_prefix t (c # s) \<or> str_includes s t)"

definition rate_limit_message :: string where
  "rate_limit_message =
     ''Rate limit exceeded. Please add a GitHub token for extended access or try again later.''"

definition only_first_1000_message :: string where
  "only_first_1000_message = ''Only first 1000 search results are available''"

definition invalid_token_message :: string where
  "invalid_token_message = ''Invalid token, please check your GitHub token and try again.''"

definition page_cap_message :: string where
  "page_cap_message = ''Only first 1000 results are available''"

definition failed_fetch_message :: string where
  "failed_fetch_message = ''Failed to fetch repositories''"

section \<open>The page fetcher\<close>

record 'r search_response =
  total_count :: int
  items :: "'r list"

text \<open>
  What the network does with one request is an input of the model. \<open>Rejects e\<close>:
  \<^verbatim>\<open>fetch\<close> rejects with \<open>e\<close>. \<open>Responds status body\<close>: a response with this status;
  \<^verbatim>\<open>response.ok\<close> is \<open>200 \<le> status \<le> 299\<close>; \<open>body\<close> is what reading an ok response
  gives, that is \<^verbatim>\<open>response.json()\<close> followed, when a token is saved, by the
  \<^verbatim>\<open>subscribers_count\<close> requests (which keep \<^verbatim>\<open>total_count\<close> and can only fail by rejecting).
\<close>

datatype 'r net_outcome =
  Rejects thrown
  | Responds int "thrown + 'r search_response"

definition fetchRepositoriesPage ::
  "page_param \<Rightarrow> 'r net_outcome \<Rightarrow> thrown + 'r search_response" where
  "fetchRepositoriesPage params net =
     (if page params > MAX_PAGES then Inl (ErrorObj PlainError page_cap_message)
      else case net of
        Rejects e \<Rightarrow> Inl e
      | Responds status body \<Rightarrow>
          if \<not> (200 \<le> status \<and> status \<le> 299) then
            (if status = 403 then Inl (ErrorObj RateLimitExceededError rate_limit_message)
             else if status = 422 then Inl (ErrorObj OnlyFirst1000ResultsError only_first_1000_message)
             else if status = 401 then Inl (ErrorObj InvalidTokenError invalid_token_message)
             else Inl (ErrorObj PlainError failed_fetch_message))
          else body)"

section \<open>SeenStore\<close>

text \<open>
  \<^verbatim>\<open>interface SeenRepositories { [key: string]: { seenPages: Set<number>; totalPages:
  number | null; exhausted: boolean } }\<close>. A \<^verbatim>\<open>Set\<close> is the list of its elements in insertion
  order (the order \<^verbatim>\<open>Array.from\<close> gives back), without repetition. The store is an object
  whose property names are criteria keys.
\<close>

record seen_data =
  seenPages :: "int list"
  totalPages :: "int option"
  exhausted :: bool

type_synonym seen_repositories = "(string \<times> seen_data) list"

definition Set_add :: "int list \<Rightarrow> int \<Rightarrow> int list" where
  \<comment> \<open>\<^verbatim>\<open>set.add(x)\<close>\<close>
  "Set_add s x = (if x \<in> set s then s else s @ [x])"

subsection \<open>Run-time values and JSON documents\<close>

text \<open>
  \<open>json\<close> is a JSON document: what a JSON text denotes, and what \<^verbatim>\<open>JSON.parse\<close> builds from
  it before the reviver runs. \<open>jsval\<close> adds the \<^verbatim>\<open>Set\<close> objects that the reviver creates and
  that the replacer removes.
\<close>

datatype json =
  JNull | JBool bool | JNum int | JStr string
  | JArr "json list"
  | JObj "(string \<times> json) list"

datatype jsval =
  VNull | VBool bool | VNum int | VStr string
  | VArr "jsval list"
  | VObj "(string \<times> jsval) list"
  | VSet "jsval list"

definition seen_data_to_js :: "seen_data \<Rightarrow> jsval" where
  \<comment> \<open>The object literal of lines 299-303 and 317-321, as a run-time value.\<close>
  "seen_data_to_js d =
     VObj [(''seenPages'', VSet (map VNum (seenPages d))),
           (''totalPages'', case totalPages d of None \<Rightarrow> VNull | Some n \<Rightarrow> VNum n),
           (''exhausted'', VBool (exhausted d))]"

definition seen_to_js :: "seen_repositories \<Rightarrow> jsval" where
  "seen_to_js s = VObj (map (\<lambda>(k, d). (k, seen_data_to_js d)) s)"

subsection \<open>\<^verbatim>\<open>saveSeenRepositories\<close>: \<^verbatim>\<open>JSON.stringify\<close> with a replacer\<close>

definition replacer :: "jsval \<Rightarrow> jsval" where
  \<comment> \<open>\<^verbatim>\<open>(_, value) => value instanceof Set ? Array.from(value) : value\<close>\<close>
  "replacer v = (case v of VSet xs \<Rightarrow> VArr xs | _ \<Rightarrow> v)"

function JSON_stringify :: "jsval \<Rightarrow> json" where
  \<comment> \<open>SerializeJSONProperty: the replacer is applied to the value, then the result is
      serialised, its elements and properties in turn. A \<^verbatim>\<open>Set\<close> that survived the replacer
      would have no enumerable property.\<close>
  "JSON_stringify v =
     (case replacer v of
        VNull \<Rightarrow> JNull
      | VBool b \<Rightarrow> JBool b
      | VNum n \<Rightarrow> JNum n
      | VStr s \<Rightarrow> JStr s
      | VArr xs \<Rightarrow> JArr (map JSON_stringify xs)
      | VObj ms \<Rightarrow> JObj (map (\<lambda>m. (fst m, JSON_stringify (snd m))) ms)
      | VSet xs \<Rightarrow> JObj [])"
  by pat_completeness auto
termination
proof (relation "measure size")
  show "wf (measure (size :: jsval \<Rightarrow> nat))"
    by simp
next
  fix v :: jsval and xs x
  assume "replacer v = VArr xs" and "x \<in> set xs"
  then show "(x, v) \<in> measure size"
    by (cases v) (auto simp: replacer_def less_Suc_eq_le size_list_estimation')
next
  fix v :: jsval and ms m
  assume "replacer v = VObj ms" and "m \<in> set ms"
  then show "(snd m, v) \<in> measure size"
    by (cases v; cases m) (auto simp: replacer_def less_Suc_eq_le size_list_estimation')
qed

declare JSON_stringify.simps [simp del]

subsection \<open>\<^verbatim>\<open>loadSeenRepositories\<close>: \<^verbatim>\<open>JSON.parse\<close> with a reviver\<close>

definition is_primitive :: "jsval \<Rightarrow> bool" where
  "is_primitive v = (case v of VArr _ \<Rightarrow> False | VObj _ \<Rightarrow> False | VSet _ \<Rightarrow> False | _ \<Rightarrow> True)"

definition Set_add_value :: "jsval list \<Rightarrow> jsval \<Rightarrow> jsval list" where
  \<comment> \<open>\<^verbatim>\<open>set.add(v)\<close> on values of any kind: primitives are compared by value; the arrays and
      objects of a parsed document are all different objects.\<close>
  "Set_add_value s v = (if is_primitive v \<and> v \<in> set s then s else s @ [v])"

definition not_iterable_message :: string where
  "not_iterable_message = ''value is not iterable''"

definition new_Set :: "jsval \<Rightarrow> thrown + jsval" where
  \<comment> \<open>\<^verbatim>\<open>new Set(value)\<close>: empty for \<^verbatim>\<open>null\<close>, the elements of an array or a set, the characters
      of a string; a number, a boolean and a plain object are not iterable.\<close>
  "new_Set v =
     (case v of
        VNull \<Rightarrow> Inr (VSet [])
      | VArr xs \<Rightarrow> Inr (VSet (foldl Set_add_value [] xs))
      | VSet xs \<Rightarrow> Inr (VSet (foldl Set_add_value [] xs))
      | VStr s \<Rightarrow> Inr (VSet (foldl Set_add_value [] (map (\<lambda>c. VStr [c]) s)))
      | _ \<Rightarrow> Inl (ErrorObj TypeError not_iterable_message))"

text \<open>
  The reviver is called with the name of the property that holds the value: a property
  name for a member of an object, the empty name for the root, and the index in decimal
  for an element of an array. An index is never \<^verbatim>\<open>'seenPages'\<close>, so the model does not carry
  its digits.
\<close>

datatype prop_key = Named string | Indexed

definition reviver :: "prop_key \<Rightarrow> jsval \<Rightarrow> thrown + jsval" where
  \<comment> \<open>\<^verbatim>\<open>(key, value) => key === 'seenPages' ? new Set(value) : value\<close>\<close>
  "reviver key v = (if key = Named ''seenPages'' then new_Set v else Inr v)"

fun collect :: "('e + 'a) list \<Rightarrow> 'e + 'a list" where
  \<comment> \<open>The children are revived in order; the first exception ends the walk.\<close>
  "collect [] = Inr []"
| "collect (Inl e # rs) = Inl e"
| "collect (Inr x # rs) = (case collect rs of Inl e \<Rightarrow> Inl e | Inr xs \<Rightarrow> Inr (x # xs))"

fun internalize :: "prop_key \<Rightarrow> json \<Rightarrow> thrown + jsval" where
  \<comment> \<open>InternalizeJSONProperty: children first, then the reviver on the value itself.\<close>
  "internalize key JNull = reviver key VNull"
| "internalize key (JBool b) = reviver key (VBool b)"
| "internalize key (JNum n) = reviver key (VNum n)"
| "internalize key (JStr s) = reviver key (VStr s)"
| "internalize key (JArr xs) =
     (case collect (map (internalize Indexed) xs) of
        Inl e \<Rightarrow> Inl e
      | Inr vs \<Rightarrow> reviver key (VArr vs))"
| "internalize key (JObj ms) =
     (case collect (map (\<lambda>m. case internalize (Named (fst m)) (snd m) of
                                Inl e \<Rightarrow> Inl e | Inr v \<Rightarrow> Inr (fst m, v)) ms) of
        Inl e \<Rightarrow> Inl e
      | Inr vs \<Rightarrow> reviver key (VObj vs))"

text \<open>
  The item of \<^verbatim>\<open>localStorage\<close> under \<^verbatim>\<open>SEEN_STORAGE_KEY\<close> is a string, read only by
  \<^verbatim>\<open>JSON.parse\<close>. It is represented by what \<^verbatim>\<open>JSON.parse\<close> makes of it: the empty string, a
  text that is not JSON, or a JSON text, given by the document it denotes (the members of
  an object in the order in which the parsed object enumerates them). \<open>None\<close> is
  \<^verbatim>\<open>getItem\<close> returning \<^verbatim>\<open>null\<close>.
\<close>

datatype stored_text = EmptyText | MalformedText | JsonText json

definition syntax_error_message :: string where
  "syntax_error_message = ''Unexpected token in JSON''"

definition loadSeenRepositories :: "stored_text option \<Rightarrow> thrown + jsval" where
  "loadSeenRepositories stored =
     (case stored of
        None \<Rightarrow> Inr (VObj [])
      | Some EmptyText \<Rightarrow> Inr (VObj [])
      | Some MalformedText \<Rightarrow> Inl (ErrorObj SyntaxError syntax_error_message)
      | Some (JsonText j) \<Rightarrow> internalize (Named []) j)"

definition saved_text :: "seen_repositories \<Rightarrow> stored_text" where
  \<comment> \<open>The text that \<^verbatim>\<open>saveSeenRepositories(seen)\<close> stores.\<close>
  "saved_text s = JsonText (JSON_stringify (seen_to_js s))"

section \<open>The feed cursor\<close>

text \<open>
  The state that the cursor reads and writes: the object \<^verbatim>\<open>seen\<close> (loaded once per
  \<^verbatim>\<open>queryFn\<close> call and shared by every recursive call), the stored item, and three counters:
  how many times \<^verbatim>\<open>Math.random\<close>, \<^verbatim>\<open>fetchRepositoriesPage\<close> and \<^verbatim>\<open>getNextSearchParams\<close> have
  been called. The first two index the inputs below; the third only records the calls.
\<close>

record cursor_state =
  seen :: seen_repositories
  storage :: "stored_text option"
  draws :: nat
  fetches :: nat
  selects :: nat

text \<open>
  What the cursor does not decide. \<^verbatim>\<open>SEARCH_CRITERIAS\<close> is imported from \<^verbatim>\<open>../lib/github\<close>, whose
  source exports \<^verbatim>\<open>getSearchCriterias\<close> and no such constant: the criteria space is a parameter.
  \<open>language\<close> is the hook's
  option (\<open>None\<close> is \<^verbatim>\<open>null\<close>). \<open>math_random k\<close> stands for the \<open>k\<close>-th value of
  \<^verbatim>\<open>Math.random()\<close>: \<^verbatim>\<open>Math.floor(Math.random() * n)\<close> is \<open>math_random k mod n\<close>, any index below
  \<open>n\<close>. \<open>network k params\<close> is what the network does with the \<open>k\<close>-th request.
\<close>

record 'r env =
  SEARCH_CRITERIAS :: "search_criteria list"
  language :: "string option"
  math_random :: "nat \<Rightarrow> nat"
  network :: "nat \<Rightarrow> page_param \<Rightarrow> 'r net_outcome"

definition saveSeenRepositories :: "cursor_state \<Rightarrow> cursor_state" where
  \<comment> \<open>\<^verbatim>\<open>localStorage.setItem(SEEN_STORAGE_KEY, JSON.stringify(seen, replacer))\<close>\<close>
  "saveSeenRepositories st = st\<lparr>storage := Some (saved_text (seen st))\<rparr>"

definition or_undefined :: "string option \<Rightarrow> string option" where
  \<comment> \<open>\<^verbatim>\<open>language || undefined\<close>: \<^verbatim>\<open>null\<close> and the empty string are falsy.\<close>
  "or_undefined l = (case l of None \<Rightarrow> None | Some s \<Rightarrow> if s = [] then None else Some s)"

definition with_language :: "'r env \<Rightarrow> search_criteria \<Rightarrow> search_criteria" where
  \<comment> \<open>\<^verbatim>\<open>{ ...criteria, language: language || undefined }\<close>\<close>
  "with_language e c = obj_set c ''language'' (or_undefined (language e))"

definition is_exhausted :: "seen_repositories \<Rightarrow> search_criteria \<Rightarrow> bool" where
  \<comment> \<open>\<^verbatim>\<open>seen[JSON.stringify(criteria)]?.exhausted\<close>\<close>
  "is_exhausted s c =
     (case obj_get s (JSON_stringify_criteria c) of None \<Rightarrow> False | Some d \<Rightarrow> exhausted d)"

definition availableCriterias :: "'r env \<Rightarrow> seen_repositories \<Rightarrow> search_criteria list" where
  "availableCriterias e s =
     filter (\<lambda>c. \<not> is_exhausted s c) (map (with_language e) (SEARCH_CRITERIAS e))"

definition first_criteria :: "'r env \<Rightarrow> search_criteria" where
  \<comment> \<open>\<^verbatim>\<open>{ ...SEARCH_CRITERIAS[0], language: language || undefined }\<close>; spreading \<^verbatim>\<open>undefined\<close>
      (an empty space) adds no property.\<close>
  "first_criteria e =
     with_language e (case SEARCH_CRITERIAS e of [] \<Rightarrow> [] | c # _ \<Rightarrow> c)"

definition first_unseen :: "seen_data \<Rightarrow> int \<Rightarrow> int option" where
  \<comment> \<open>The \<^verbatim>\<open>for\<close> loop of lines 260-264: the first page of \<open>1..n\<close> that \<^verbatim>\<open>seenPages\<close> lacks.\<close>
  "first_unseen d n = find (\<lambda>p. p \<notin> set (seenPages d)) [1..n]"

definition totalPages_falsy :: "seen_data \<Rightarrow> bool" where
  \<comment> \<open>\<^verbatim>\<open>!seenData.totalPages\<close>: \<^verbatim>\<open>null\<close> and \<open>0\<close> are falsy.\<close>
  "totalPages_falsy d = (case totalPages d of None \<Rightarrow> True | Some n \<Rightarrow> n = 0)"

definition effectiveTotalPages :: "seen_data \<Rightarrow> int" where
  \<comment> \<open>\<^verbatim>\<open>Math.min(seenData.totalPages, MAX_PAGES)\<close>, read where \<^verbatim>\<open>totalPages\<close> is a number.\<close>
  "effectiveTotalPages d = (case totalPages d of None \<Rightarrow> 0 | Some n \<Rightarrow> min n MAX_PAGES)"

definition mark_exhausted :: "cursor_state \<Rightarrow> string \<Rightarrow> seen_data \<Rightarrow> cursor_state" where
  \<comment> \<open>Lines 266-268.\<close>
  "mark_exhausted st k d =
     saveSeenRepositories (st\<lparr>seen := obj_set (seen st) k (d\<lparr>exhausted := True\<rparr>)\<rparr>)"

function getNextSearchParams :: "'r env \<Rightarrow> cursor_state \<Rightarrow> page_param \<times> cursor_state" where
  "getNextSearchParams e st0 =
     (let st = st0\<lparr>selects := selects st0 + 1\<rparr>;
          available = availableCriterias e (seen st)
      in if length available = 0 then
           (\<lparr>criteria = first_criteria e, page = 1\<rparr>, st\<lparr>storage := None\<rparr>)
         else
           let c = available ! (math_random e (draws st) mod length available);
               st1 = st\<lparr>draws := draws st + 1\<rparr>;
               criteriaKey = JSON_stringify_criteria c
           in case obj_get (seen st1) criteriaKey of
                None \<Rightarrow> (\<lparr>criteria = c, page = 1\<rparr>, st1)
              | Some seenData \<Rightarrow>
                  if totalPages_falsy seenData then (\<lparr>criteria = c, page = 1\<rparr>, st1)
                  else
                    (case first_unseen seenData (effectiveTotalPages seenData) of
                       Some p \<Rightarrow> (\<lparr>criteria = c, page = p\<rparr>, st1)
                     | None \<Rightarrow> getNextSearchParams e (mark_exhausted st1 criteriaKey seenData)))"
  by pat_completeness auto


text \<open>
  Termination: the recursive call comes after the chosen criteria, which was available,
  has been marked exhausted, so the number of available criteria has gone down.
\<close>

lemma map_of_obj_set: "map_of (obj_set ps k v) = (map_of ps)(k \<mapsto> v)"
  by (induction ps) (auto simp: fun_eq_iff)

lemma obj_get_obj_set: "obj_get (obj_set ps k v) k' = (if k' = k then Some v else obj_get ps k')"
  by (simp add: obj_get_def map_of_obj_set)

lemma is_exhausted_mark:
  "is_exhausted (obj_set s k (d\<lparr>exhausted := True\<rparr>)) c =
     (JSON_stringify_criteria c = k \<or> is_exhausted s c)"
  by (simp add: is_exhausted_def obj_get_obj_set)

lemma available_shrinks:
  assumes "c \<in> set (availableCriterias e s)"
  shows "length (availableCriterias e (obj_set s (JSON_stringify_criteria c) (d\<lparr>exhausted := True\<rparr>)))
           < length (availableCriterias e s)"
proof -
  let ?k = "JSON_stringify_criteria c"
  let ?xs = "availableCriterias e s"
  have eq: "availableCriterias e (obj_set s ?k (d\<lparr>exhausted := True\<rparr>))
              = filter (\<lambda>x. JSON_stringify_criteria x \<noteq> ?k) ?xs"
    by (auto simp: availableCriterias_def is_exhausted_mark intro: filter_cong)
  have "length (filter (\<lambda>x. JSON_stringify_criteria x \<noteq> ?k) ?xs) < length ?xs"
    using assms by (intro length_filter_less[where x = c]) auto
  with eq show ?thesis by simp
qed

termination getNextSearchParams
proof (relation "measure (\<lambda>(e, st). length (availableCriterias e (seen st)))")
  show "wf (measure (\<lambda>(e :: 'a env, st). length (availableCriterias e (seen st))))"
    by simp
next
  fix e :: "'a env" and st0 st st1 :: cursor_state and available c criteriaKey seenData
  assume st: "st = st0\<lparr>selects := selects st0 + 1\<rparr>"
    and av: "available = availableCriterias e (seen st)"
    and ne: "length available \<noteq> 0"
    and c: "c = available ! (math_random e (draws st) mod length available)"
    and st1: "st1 = st\<lparr>draws := draws st + 1\<rparr>"
    and k: "criteriaKey = JSON_stringify_criteria c"
  have "c \<in> set (availableCriterias e (seen st0))"
    using ne by (simp add: c av st)
  then show "((e, mark_exhausted st1 criteriaKey seenData), (e, st0))
               \<in> measure (\<lambda>(e, st). length (availableCriterias e (seen st)))"
    by (simp add: mark_exhausted_def saveSeenRepositories_def st1 st k available_shrinks)
qed

declare getNextSearchParams.simps [simp del]

subsection \<open>\<^verbatim>\<open>tryFetchWithParams\<close>\<close>

record 'r query_response =
  response_total_count :: int
  response_items :: "('r \<times> string) list"  \<comment> \<open>each item with its \<^verbatim>\<open>searchCriteria\<close> tag\<close>
  nextPage :: page_param

definition is_rate_limit :: "thrown \<Rightarrow> bool" where
  \<comment> \<open>\<^verbatim>\<open>error instanceof Error && error.message.includes('Rate limit exceeded')\<close>\<close>
  "is_rate_limit err =
     (case err of ErrorObj _ msg \<Rightarrow> str_includes msg ''Rate limit exceeded'' | NonError \<Rightarrow> False)"

definition pages_for :: "int \<Rightarrow> int" where
  \<comment> \<open>\<^verbatim>\<open>Math.min(Math.ceil(response.total_count / 10), MAX_PAGES)\<close>; the ceiling of \<open>n / 10\<close>
      is \<open>- (- n div 10)\<close>.\<close>
  "pages_for n = min (- ((- n) div 10)) MAX_PAGES"

definition record_no_results :: "cursor_state \<Rightarrow> string \<Rightarrow> cursor_state" where
  \<comment> \<open>Lines 299-305: \<^verbatim>\<open>seen[criteriaKey] || { .. }\<close> keeps an entry that exists.\<close>
  "record_no_results st criteriaKey =
     (let seenData = (case obj_get (seen st) criteriaKey of
                        Some d \<Rightarrow> d
                      | None \<Rightarrow> \<lparr>seenPages = [], totalPages = Some 0, exhausted = True\<rparr>)
      in saveSeenRepositories (st\<lparr>seen := obj_set (seen st) criteriaKey seenData\<rparr>))"

definition record_page :: "cursor_state \<Rightarrow> string \<Rightarrow> int \<Rightarrow> int \<Rightarrow> cursor_state" where
  \<comment> \<open>Lines 312-326; \<open>n\<close> is \<^verbatim>\<open>response.total_count\<close>. The total of an entry that exists is
      not rewritten, and \<^verbatim>\<open>exhausted\<close> is compared with the total just computed.\<close>
  "record_page st criteriaKey p n =
     (let totalPages' = pages_for n;
          seenData = (case obj_get (seen st) criteriaKey of
                        Some d \<Rightarrow> d
                      | None \<Rightarrow> \<lparr>seenPages = [], totalPages = Some totalPages', exhausted = False\<rparr>);
          seenData1 = seenData\<lparr>seenPages := Set_add (seenPages seenData) p\<rparr>;
          seenData2 = seenData1\<lparr>exhausted := (int (length (seenPages seenData1)) \<ge> totalPages')\<rparr>
      in saveSeenRepositories (st\<lparr>seen := obj_set (seen st) criteriaKey seenData2\<rparr>))"

text \<open>
  The recursion of \<^verbatim>\<open>tryFetchWithParams\<close> has no bound of its own, so the model counts the
  calls: \<open>fuel\<close> is the number of calls allowed, and the result \<open>None\<close> says that the
  last allowed call still went on to a further one. \<open>Some (Inl err)\<close>: the promise rejects
  with \<open>err\<close>; \<open>Some (Inr r)\<close>: it resolves with \<open>r\<close>. The state is returned in every case.
\<close>

fun tryFetchWithParams ::
  "'r env \<Rightarrow> nat \<Rightarrow> cursor_state \<Rightarrow> page_param
     \<Rightarrow> (thrown + 'r query_response) option \<times> cursor_state" where
  "tryFetchWithParams e 0 st params = (None, st)"
| "tryFetchWithParams e (Suc fuel) st params =
     (let criteriaKey = JSON_stringify_criteria (criteria params);
          st1 = st\<lparr>fetches := fetches st + 1\<rparr>
      in case fetchRepositoriesPage params (network e (fetches st) params) of
           Inr response \<Rightarrow>
             if total_count response = 0 then
               (case getNextSearchParams e (record_no_results st1 criteriaKey) of
                  (nextParams, st2) \<Rightarrow> tryFetchWithParams e fuel st2 nextParams)
             else
               (Some (Inr \<lparr>response_total_count = total_count response,
                            response_items = map (\<lambda>repo. (repo, criteriaKey)) (items response),
                            nextPage = \<lparr>criteria = criteria params, page = page params + 1\<rparr>\<rparr>),
                record_page st1 criteriaKey (page params) (total_count response))
         | Inl err \<Rightarrow>
             if is_rate_limit err then (Some (Inl err), st1)
             else
               (case getNextSearchParams e st1 of
                  (nextParams, st2) \<Rightarrow> tryFetchWithParams e fuel st2 nextParams))"

definition retry :: "nat \<Rightarrow> string \<Rightarrow> bool" where
  \<comment> \<open>The \<^verbatim>\<open>retry\<close> option of the query, lines 353-357; \<open>msg\<close> is \<^verbatim>\<open>error.message\<close>.\<close>
  "retry failureCount msg = (\<not> str_includes msg ''Rate limit exceeded'' \<and> failureCount < 3)"

section \<open>Notions used in the statements\<close>

definition seenPages_of :: "seen_repositories \<Rightarrow> search_criteria \<Rightarrow> int list" where
  \<comment> \<open>The pages recorded as seen for a criteria; none when it has no entry.\<close>
  "seenPages_of s c =
     (case obj_get s (JSON_stringify_criteria c) of None \<Rightarrow> [] | Some d \<Rightarrow> seenPages d)"

definition is_Set :: "jsval \<Rightarrow> bool" where
  "is_Set v = (case v of VSet _ \<Rightarrow> True | _ \<Rightarrow> False)"

fun seenPages_are_sets :: "jsval \<Rightarrow> bool" where
  \<comment> \<open>Every property named \<^verbatim>\<open>seenPages\<close>, at any depth, holds a \<^verbatim>\<open>Set\<close>, and no \<^verbatim>\<open>Set\<close> holds a
      primitive value twice.\<close>
  "seenPages_are_sets (VObj ms) =
     (\<forall>m \<in> set ms. (fst m = ''seenPages'' \<longrightarrow> is_Set (snd m)) \<and> seenPages_are_sets (snd m))"
| "seenPages_are_sets (VArr xs) = (\<forall>x \<in> set xs. seenPages_are_sets x)"
| "seenPages_are_sets (VSet xs) =
     (distinct (filter is_primitive xs) \<and> (\<forall>x \<in> set xs. seenPages_are_sets x))"
| "seenPages_are_sets v = True"

section \<open>Concrete inputs\<close>

text \<open>
  The two-bucket space of the specification's scenario, a few networks, and states built
  from a store. Repositories are numbers here.
\<close>

definition c_low :: search_criteria where
  "c_low = [(''stars'', Some ''700...2000'')]"

definition c_top :: search_criteria where
  "c_top = [(''stars'', Some ''>50000'')]"

definition key_low :: string where
  "key_low = JSON_stringify_criteria c_low"

definition key_top :: string where
  "key_top = JSON_stringify_criteria c_top"

definition p_low :: "int \<Rightarrow> page_param" where
  \<comment> \<open>Page \<open>n\<close> of the first bucket, as \<^verbatim>\<open>getNextSearchParams\<close> builds it with no language.\<close>
  "p_low n = \<lparr>criteria = [(''stars'', Some ''700...2000''), (''language'', None)], page = n\<rparr>"

definition status_only :: "int \<Rightarrow> nat net_outcome" where
  \<comment> \<open>A response with a status outside 200..299; its body is never read.\<close>
  "status_only code = Responds code (Inl NonError)"

definition page_of :: "int \<Rightarrow> nat list \<Rightarrow> nat net_outcome" where
  "page_of n rs = Responds 200 (Inr \<lparr>total_count = n, items = rs\<rparr>)"

definition net_server_error :: "nat \<Rightarrow> page_param \<Rightarrow> nat net_outcome" where
  "net_server_error k p = status_only 500"

definition net_forbidden :: "nat \<Rightarrow> page_param \<Rightarrow> nat net_outcome" where
  "net_forbidden k p = status_only 403"


definition net_unauthorized_once :: "nat \<Rightarrow> page_param \<Rightarrow> nat net_outcome" where
  "net_unauthorized_once k p = (if k = 0 then status_only 401 else page_of 25 [7])"

definition net_no_results :: "nat \<Rightarrow> page_param \<Rightarrow> nat net_outcome" where
  "net_no_results k p = page_of 0 []"

definition net_no_results_once :: "nat \<Rightarrow> page_param \<Rightarrow> nat net_outcome" where
  "net_no_results_once k p = (if k = 0 then page_of 0 [] else page_of 25 [7])"

definition env_of ::
  "search_criteria list \<Rightarrow> nat \<Rightarrow> (nat \<Rightarrow> page_param \<Rightarrow> nat net_outcome) \<Rightarrow> nat env" where
  \<comment> \<open>No language filter; every draw of \<^verbatim>\<open>Math.random\<close> selects index \<open>r\<close> (modulo the length).\<close>
  "env_of space r net =
     \<lparr>SEARCH_CRITERIAS = space, language = None, math_random = (\<lambda>k. r), network = net\<rparr>"

definition st_with :: "seen_repositories \<Rightarrow> cursor_state" where
  \<comment> \<open>The state at the start of a \<^verbatim>\<open>queryFn\<close> call whose stored item holds \<open>s\<close>.\<close>
  "st_with s = \<lparr>seen = s, storage = Some (saved_text s), draws = 0, fetches = 0, selects = 0\<rparr>"

definition store_partial :: seen_repositories where
  "store_partial = [(key_low, \<lparr>seenPages = [1], totalPages = Some 3, exhausted = False\<rparr>)]"

definition store_stale :: seen_repositories where
  "store_stale = [(key_low, \<lparr>seenPages = [1], totalPages = Some 0, exhausted = False\<rparr>)]"

definition store_done :: seen_repositories where
  "store_done = [(key_low, \<lparr>seenPages = [1], totalPages = Some 1, exhausted = True\<rparr>),
                 (key_top, \<lparr>seenPages = [1, 2], totalPages = Some 2, exhausted = True\<rparr>)]"

definition store_135 :: seen_repositories where
  "store_135 = [(key_low, \<lparr>seenPages = [1, 3, 5], totalPages = Some 5, exhausted = False\<rparr>)]"

section \<open>The canonical key\<close>

lemma hex_digit_inj: "i < 16 \<Longrightarrow> j < 16 \<Longrightarrow> hex_digit i = hex_digit j \<Longrightarrow> i = j"
proof -
  assume "i < 16" "j < 16" "hex_digit i = hex_digit j"
  moreover have "distinct ''0123456789abcdef''" by simp
  ultimately show "i = j"
    unfolding hex_digit_def by (simp add: nth_eq_iff_index_eq)
qed

lemma hex_pair_inj:
  assumes "n < 32" "m < 32"
    and "hex_digit (n div 16) = hex_digit (m div 16)"
    and "hex_digit (n mod 16) = hex_digit (m mod 16)"
  shows "n = m"
proof -
  have "n div 16 = m div 16"
    using assms by (intro hex_digit_inj) auto
  moreover have "n mod 16 = m mod 16"
    using assms by (intro hex_digit_inj) auto
  ultimately show ?thesis
    by (metis div_mult_mod_eq)
qed

lemma escape_char_cases:
  "(escape_char c = [c] \<and> c \<noteq> CHR 0x5C \<and> c \<noteq> CHR 0x22)
   \<or> (\<exists>x. escape_char c = [CHR 0x5C, x] \<and> x \<noteq> CHR ''u'')
   \<or> (escape_char c = [CHR 0x5C, CHR ''u'', CHR ''0'', CHR ''0'',
                         hex_digit (of_char c div 16), hex_digit (of_char c mod 16)]
       \<and> (of_char c :: nat) < 32)"
  by (auto simp: escape_char_def Let_def)

lemma escape_char_not_quote: "escape_char c @ r \<noteq> CHR 0x22 # s"
  using escape_char_cases[of c] by auto

lemma of_char_same: "(of_char c :: nat) = n \<Longrightarrow> of_char d = n \<Longrightarrow> c = d"
  by (metis of_char_eq_iff)

lemma short_escape_inj:
  "escape_char c = [CHR 0x5C, x] \<Longrightarrow> escape_char d = [CHR 0x5C, x] \<Longrightarrow> c = d"
  by (auto simp: escape_char_def Let_def split: if_splits intro: of_char_same)

lemma escape_char_inj:
  assumes "escape_char c @ r = escape_char d @ s"
  shows "c = d \<and> r = s"
proof -
  consider
    (plain) "escape_char c = [c]" "c \<noteq> CHR 0x5C" "c \<noteq> CHR 0x22"
  | (short) x where "escape_char c = [CHR 0x5C, x]" "x \<noteq> CHR ''u''"
  | (hex) "escape_char c = [CHR 0x5C, CHR ''u'', CHR ''0'', CHR ''0'',
             hex_digit (of_char c div 16), hex_digit (of_char c mod 16)]" "(of_char c :: nat) < 32"
    using escape_char_cases[of c] by blast
  then show ?thesis
  proof cases
    case plain
    with assms escape_char_cases[of d] show ?thesis by auto
  next
    case (short x)
    from escape_char_cases[of d] assms short have "escape_char d = [CHR 0x5C, x] \<and> r = s"
      by auto
    with short show ?thesis
      by (auto dest: short_escape_inj)
  next
    case hex
    from escape_char_cases[of d] assms hex
    have d: "hex_digit (of_char c div 16) = hex_digit (of_char d div 16)"
      "hex_digit (of_char c mod 16) = hex_digit (of_char d mod 16)"
      "(of_char d :: nat) < 32" "r = s"
      by auto
    with hex have "(of_char c :: nat) = of_char d"
      by (intro hex_pair_inj) auto
    with d show ?thesis by simp
  qed
qed

lemma escaped_inj:
  "concat (map escape_char s) @ CHR 0x22 # r = concat (map escape_char t) @ CHR 0x22 # r'
     \<Longrightarrow> s = t \<and> r = r'"
proof (induction s arbitrary: t)
  case Nil
  then show ?case
    using escape_char_not_quote[of "hd t"] by (cases t) (auto simp: eq_commute[of "CHR 0x22 # r"])
next
  case (Cons c s)
  show ?case
  proof (cases t)
    case Nil
    with Cons.prems show ?thesis
      using escape_char_not_quote[of c] by auto
  next
    case (Cons d t')
    with Cons.prems have "escape_char c @ (concat (map escape_char s) @ CHR 0x22 # r)
        = escape_char d @ (concat (map escape_char t') @ CHR 0x22 # r')"
      by simp
    then have "c = d" and "concat (map escape_char s) @ CHR 0x22 # r
        = concat (map escape_char t') @ CHR 0x22 # r'"
      using escape_char_inj by blast+
    with Cons.IH[of t'] Cons show ?thesis by simp
  qed
qed

lemma quote_inj: "quote s @ r = quote t @ r' \<Longrightarrow> s = t \<and> r = r'"
  using escaped_inj[of s r t r'] by (simp add: quote_def)

lemma quote_starts: "quote s @ r = CHR 0x22 # (concat (map escape_char s) @ CHR 0x22 # r)"
  by (simp add: quote_def)

lemma member_text_inj: "member_text m @ r = member_text m' @ r' \<Longrightarrow> m = m' \<and> r = r'"
proof -
  assume "member_text m @ r = member_text m' @ r'"
  then have "quote (fst m) @ (CHR '':'' # quote (snd m) @ r)
               = quote (fst m') @ (CHR '':'' # quote (snd m') @ r')"
    by (simp add: member_text_def)
  then have "fst m = fst m'" and "quote (snd m) @ r = quote (snd m') @ r'"
    using quote_inj by blast+
  then show ?thesis
    using quote_inj[of "snd m" r "snd m'" r'] by (simp add: prod_eq_iff)
qed

lemma member_text_starts: "\<exists>t. member_text m @ r = CHR 0x22 # t"
  by (simp add: member_text_def quote_def)

lemma members_text_inj:
  "members_text ms @ CHR ''}'' # r = members_text ms' @ CHR ''}'' # r' \<Longrightarrow> ms = ms'"
proof (induction ms arbitrary: ms' rule: members_text.induct)
  case 1
  then show ?case
    using member_text_starts
    by (cases ms' rule: members_text.cases) (auto simp: member_text_def quote_def)
next
  case (2 m)
  then show ?case
  proof (cases ms' rule: members_text.cases)
    case 1
    with 2 show ?thesis by (auto simp: member_text_def quote_def)
  next
    case (2 m')
    with "2.prems" show ?thesis
      using member_text_inj[of m "CHR ''}'' # r" m' "CHR ''}'' # r'"] by simp
  next
    case (3 m' m'' ms'')
    with "2.prems" have "member_text m @ (CHR ''}'' # r)
        = member_text m' @ (CHR '','' # members_text (m'' # ms'') @ CHR ''}'' # r')"
      by simp
    then show ?thesis
      using member_text_inj by blast
  qed
next
  case (3 m m1 ms)
  show ?case
  proof (cases ms' rule: members_text.cases)
    case 1
    with "3.prems" show ?thesis by (auto simp: member_text_def quote_def)
  next
    case (2 m')
    with "3.prems" have "member_text m @ (CHR '','' # members_text (m1 # ms) @ CHR ''}'' # r)
        = member_text m' @ (CHR ''}'' # r')"
      by simp
    then show ?thesis
      using member_text_inj by blast
  next
    case (3 m' m'' ms'')
    with "3.prems" have "member_text m @ (CHR '','' # members_text (m1 # ms) @ CHR ''}'' # r)
        = member_text m' @ (CHR '','' # members_text (m'' # ms'') @ CHR ''}'' # r')"
      by simp
    then have "m = m'" and "members_text (m1 # ms) @ CHR ''}'' # r
        = members_text (m'' # ms'') @ CHR ''}'' # r'"
      using member_text_inj by blast+
    with "3.IH"[of "m'' # ms''"] 3 show ?thesis by simp
  qed
qed

text \<open>
  C7, as the code has it. The key is \<^verbatim>\<open>JSON.stringify\<close> of the object, which writes the
  properties in insertion order: two criteria have the same key exactly when their defined
  properties are the same, in the same order.
\<close>

theorem key_identical_iff_same_defined_props:
  "JSON_stringify_criteria c1 = JSON_stringify_criteria c2 \<longleftrightarrow> defined_props c1 = defined_props c2"
  using members_text_inj[of "defined_props c1" "[]" "defined_props c2" "[]"]
  by (auto simp: JSON_stringify_criteria_def)

theorem key_depends_on_property_order:
  "JSON_stringify_criteria [(''stars'', Some ''>10''), (''language'', Some ''Go'')]
     \<noteq> JSON_stringify_criteria [(''language'', Some ''Go''), (''stars'', Some ''>10'')]
   \<and> obj_get [(''stars'', Some ''>10''), (''language'', Some ''Go'')] ''stars''
       = obj_get [(''language'', Some ''Go''), (''stars'', Some ''>10'')] ''stars''
   \<and> obj_get [(''stars'', Some ''>10''), (''language'', Some ''Go'')] ''language''
       = obj_get [(''language'', Some ''Go''), (''stars'', Some ''>10'')] ''language''
   \<and> obj_get [(''stars'', Some ''>10''), (''language'', Some ''Go'')] ''created''
       = obj_get [(''language'', Some ''Go''), (''stars'', Some ''>10'')] ''created''"
  by code_simp

section \<open>Saving and loading the store\<close>

lemma JSON_stringify_simps:
  "JSON_stringify VNull = JNull"
  "JSON_stringify (VBool b) = JBool b"
  "JSON_stringify (VNum n) = JNum n"
  "JSON_stringify (VStr str) = JStr str"
  "JSON_stringify (VArr xs) = JArr (map JSON_stringify xs)"
  "JSON_stringify (VObj ms) = JObj (map (\<lambda>m. (fst m, JSON_stringify (snd m))) ms)"
  "JSON_stringify (VSet xs) = JArr (map JSON_stringify xs)"
  by (subst JSON_stringify.simps, simp add: replacer_def)+

lemma stringify_seen_data:
  "JSON_stringify (seen_data_to_js d) =
     JObj [(''seenPages'', JArr (map JNum (seenPages d))),
           (''totalPages'', case totalPages d of None \<Rightarrow> JNull | Some n \<Rightarrow> JNum n),
           (''exhausted'', JBool (exhausted d))]"
  by (simp add: seen_data_to_js_def JSON_stringify_simps comp_def split: option.split)

lemma collect_Inr_D: "collect rs = Inr vs \<Longrightarrow> rs = map Inr vs"
  by (induction rs arbitrary: vs rule: collect.induct) (auto split: sum.splits)

lemma collect_Inr_I: "collect (map Inr vs) = Inr vs"
  by (induction vs) auto

lemma collect_Inr_iff: "collect rs = Inr vs \<longleftrightarrow> rs = map Inr vs"
  using collect_Inr_D collect_Inr_I by blast

lemma collect_map_Inr: "collect (map (\<lambda>x. Inr (f x)) xs) = Inr (map f xs)"
  by (simp add: collect_Inr_iff)

lemma set_foldl_Set_add_value: "set (foldl Set_add_value acc xs) = set acc \<union> set xs"
  by (induction xs arbitrary: acc) (auto simp: Set_add_value_def)

lemma distinct_foldl_Set_add_value:
  "distinct (filter is_primitive acc) \<Longrightarrow> distinct (filter is_primitive (foldl Set_add_value acc xs))"
  by (induction xs arbitrary: acc) (auto simp: Set_add_value_def)

lemma foldl_Set_add_value_nums:
  "distinct ps \<Longrightarrow> set ps \<inter> set qs = {} \<Longrightarrow>
     foldl Set_add_value (map VNum qs) (map VNum ps) = map VNum (qs @ ps)"
proof (induction ps arbitrary: qs)
  case Nil
  then show ?case by simp
next
  case (Cons p ps)
  from Cons.prems have "foldl Set_add_value (map VNum (qs @ [p])) (map VNum ps) = map VNum ((qs @ [p]) @ ps)"
    by (intro Cons.IH) auto
  moreover from Cons.prems have "Set_add_value (map VNum qs) (VNum p) = map VNum (qs @ [p])"
    by (auto simp: Set_add_value_def)
  ultimately show ?case by simp
qed

lemma new_Set_nums: "distinct ps \<Longrightarrow> new_Set (VArr (map VNum ps)) = Inr (VSet (map VNum ps))"
  using foldl_Set_add_value_nums[of ps "[]"] by (simp add: new_Set_def)

lemma internalize_seen_data:
  assumes "distinct (seenPages d)" and "k \<noteq> ''seenPages''"
  shows "internalize (Named k) (JSON_stringify (seen_data_to_js d)) = Inr (seen_data_to_js d)"
proof -
  have pages: "internalize (Named ''seenPages'') (JArr (map JNum (seenPages d)))
                 = Inr (VSet (map VNum (seenPages d)))"
    using assms(1) by (simp add: comp_def reviver_def collect_map_Inr new_Set_nums)
  have total: "internalize (Named ''totalPages'') (case totalPages d of None \<Rightarrow> JNull | Some n \<Rightarrow> JNum n)
                 = Inr (case totalPages d of None \<Rightarrow> VNull | Some n \<Rightarrow> VNum n)"
    by (simp add: reviver_def split: option.split)
  have flag: "internalize (Named ''exhausted'') (JBool (exhausted d)) = Inr (VBool (exhausted d))"
    by (simp add: reviver_def)
  have "internalize (Named k)
          (JObj [(''seenPages'', JArr (map JNum (seenPages d))),
                 (''totalPages'', case totalPages d of None \<Rightarrow> JNull | Some n \<Rightarrow> JNum n),
                 (''exhausted'', JBool (exhausted d))])
        = Inr (VObj [(''seenPages'', VSet (map VNum (seenPages d))),
                     (''totalPages'', case totalPages d of None \<Rightarrow> VNull | Some n \<Rightarrow> VNum n),
                     (''exhausted'', VBool (exhausted d))])"
    using assms(2)
    by (subst internalize.simps(6)) (simp add: pages total flag reviver_def del: internalize.simps)
  then show ?thesis
    by (subst stringify_seen_data) (simp only: seen_data_to_js_def)
qed

lemma internalize_seen:
  assumes "\<forall>(k, d) \<in> set s. k \<noteq> ''seenPages'' \<and> distinct (seenPages d)"
  shows "internalize (Named []) (JSON_stringify (seen_to_js s)) = Inr (seen_to_js s)"
proof -
  let ?revive = "\<lambda>m. case internalize (Named (fst m)) (snd m) of
                        Inl e \<Rightarrow> Inl e | Inr v \<Rightarrow> Inr (fst m, v)"
  have doc: "JSON_stringify (seen_to_js s)
                = JObj (map (\<lambda>m. (fst m, JSON_stringify (seen_data_to_js (snd m)))) s)"
    by (simp add: seen_to_js_def JSON_stringify_simps case_prod_beta comp_def)
  have val: "seen_to_js s = VObj (map (\<lambda>m. (fst m, seen_data_to_js (snd m))) s)"
    by (simp add: seen_to_js_def case_prod_beta)
  have "?revive (fst m, JSON_stringify (seen_data_to_js (snd m))) = Inr (fst m, seen_data_to_js (snd m))"
    if "m \<in> set s" for m
    using assms that by (auto simp: internalize_seen_data)
  then have "map ?revive (map (\<lambda>m. (fst m, JSON_stringify (seen_data_to_js (snd m)))) s)
               = map (\<lambda>m. Inr (fst m, seen_data_to_js (snd m))) s"
    by simp
  then have "collect (map ?revive (map (\<lambda>m. (fst m, JSON_stringify (seen_data_to_js (snd m)))) s))
               = Inr (map (\<lambda>m. (fst m, seen_data_to_js (snd m))) s)"
    by (simp only: collect_map_Inr)
  then show ?thesis
    by (subst doc) (simp add: val reviver_def comp_def)
qed

lemma criteria_key_not_seenPages: "JSON_stringify_criteria c \<noteq> ''seenPages''"
  by (simp add: JSON_stringify_criteria_def)

lemma map_VNum_eq: "map VNum xs = map VNum ys \<longleftrightarrow> xs = ys"
  by (rule inj_map_eq_map) (simp add: inj_on_def)

lemma seen_data_to_js_inj: "seen_data_to_js d = seen_data_to_js d' \<Longrightarrow> d = d'"
  by (cases d; cases d')
     (auto simp: seen_data_to_js_def map_VNum_eq split: option.splits)

lemma seen_to_js_inj: "seen_to_js s = seen_to_js s' \<Longrightarrow> s = s'"
proof (induction s arbitrary: s')
  case Nil
  then show ?case by (simp add: seen_to_js_def)
next
  case (Cons m s)
  then obtain m' t where s': "s' = m' # t"
    by (cases s') (auto simp: seen_to_js_def)
  with Cons.prems have "fst m = fst m'" "seen_data_to_js (snd m) = seen_data_to_js (snd m')"
      "seen_to_js s = seen_to_js t"
    by (auto simp: seen_to_js_def case_prod_beta)
  with Cons.IH[of t] s' show ?case
    by (auto simp: prod_eq_iff dest: seen_data_to_js_inj)
qed

text \<open>
  C9. Saving the store and loading what was saved gives the store back as a run-time value
  (\<open>seen_to_js\<close> is one-to-one): the same keys in the same order, each with its
  \<^verbatim>\<open>totalPages\<close> and \<^verbatim>\<open>exhausted\<close>, and with \<^verbatim>\<open>seenPages\<close> a \<^verbatim>\<open>Set\<close> of the same pages, not the
  array that was stored. The hypothesis says that the store is well formed: every key is
  the key of a criteria, and a \<^verbatim>\<open>Set\<close> holds no page twice.
\<close>

theorem save_then_load_round_trip:
  assumes "\<forall>(k, d) \<in> set (seen st). (\<exists>c. k = JSON_stringify_criteria c) \<and> distinct (seenPages d)"
  shows "loadSeenRepositories (storage (saveSeenRepositories st)) = Inr (seen_to_js (seen st))"
proof -
  from assms have "\<forall>(k, d) \<in> set (seen st). k \<noteq> ''seenPages'' \<and> distinct (seenPages d)"
    using criteria_key_not_seenPages by fastforce
  from internalize_seen[OF this] show ?thesis
    by (simp add: loadSeenRepositories_def saveSeenRepositories_def saved_text_def)
qed

theorem save_then_load_round_trip_witness:
  "loadSeenRepositories (storage (saveSeenRepositories (st_with store_135)))
     = Inr (VObj [(key_low, VObj [(''seenPages'', VSet [VNum 1, VNum 3, VNum 5]),
                                  (''totalPages'', VNum 5),
                                  (''exhausted'', VBool False)])])"
proof -
  have "\<forall>(k, d) \<in> set (seen (st_with store_135)).
          (\<exists>c. k = JSON_stringify_criteria c) \<and> distinct (seenPages d)"
    by (auto simp: st_with_def store_135_def key_low_def)
  from save_then_load_round_trip[OF this]
  show ?thesis
    by (simp add: st_with_def store_135_def seen_to_js_def seen_data_to_js_def)
qed

lemma collect_elem:
  assumes "collect (map f xs) = Inr vs" and "v \<in> set vs"
  shows "\<exists>x \<in> set xs. f x = Inr v"
proof -
  from assms(1) have "map f xs = map Inr vs"
    by (rule collect_Inr_D)
  with assms(2) have "Inr v \<in> set (map f xs)"
    by simp
  then show ?thesis by auto
qed

lemma new_Set_result:
  assumes "new_Set v = Inr w" and "seenPages_are_sets v"
  shows "is_Set w \<and> seenPages_are_sets w"
proof (cases v)
  case (VStr str)
  have "seenPages_are_sets x" if "x \<in> set (map (\<lambda>c. VStr [c]) str)" for x
    using that by auto
  with assms VStr show ?thesis
    by (auto simp: new_Set_def is_Set_def distinct_foldl_Set_add_value set_foldl_Set_add_value)
qed (use assms in \<open>auto simp: new_Set_def is_Set_def distinct_foldl_Set_add_value
                     set_foldl_Set_add_value\<close>)

lemma reviver_result:
  assumes "reviver key v = Inr w" and "seenPages_are_sets v"
  shows "seenPages_are_sets w \<and> (key = Named ''seenPages'' \<longrightarrow> is_Set w)"
  using assms new_Set_result[of v w] by (auto simp: reviver_def split: if_splits)

lemma internalize_sets:
  "internalize key j = Inr w \<Longrightarrow> seenPages_are_sets w \<and> (key = Named ''seenPages'' \<longrightarrow> is_Set w)"
proof (induction key j arbitrary: w rule: internalize.induct)
  case (5 key xs)
  then obtain vs where vs: "collect (map (internalize Indexed) xs) = Inr vs"
      and w: "reviver key (VArr vs) = Inr w"
    by (auto split: sum.splits)
  have "seenPages_are_sets v" if "v \<in> set vs" for v
    using collect_elem[OF vs that] "5.IH" by blast
  then have "seenPages_are_sets (VArr vs)" by simp
  with w show ?case by (rule reviver_result)
next
  case (6 key ms)
  let ?f = "\<lambda>m. case internalize (Named (fst m)) (snd m) of
                   Inl e \<Rightarrow> Inl e | Inr v \<Rightarrow> Inr (fst m, v)"
  from 6 obtain vs where vs: "collect (map ?f ms) = Inr vs"
      and w: "reviver key (VObj vs) = Inr w"
    by (auto split: sum.splits)
  have "(fst p = ''seenPages'' \<longrightarrow> is_Set (snd p)) \<and> seenPages_are_sets (snd p)" if "p \<in> set vs" for p
  proof -
    from collect_elem[OF vs that] obtain m where m: "m \<in> set ms" "?f m = Inr p"
      by blast
    then have "internalize (Named (fst m)) (snd m) = Inr (snd p)" and "fst p = fst m"
      by (auto split: sum.splits)
    with "6.IH"[OF m(1)] show ?thesis by auto
  qed
  then have "seenPages_are_sets (VObj vs)" by simp
  with w show ?case by (rule reviver_result)
qed (auto dest: reviver_result)

text \<open>
  C8, as the code has it. With nothing stored, or the empty string stored,
  \<^verbatim>\<open>loadSeenRepositories\<close> returns the empty store. A stored text that is not JSON is not caught:
  the \<^verbatim>\<open>SyntaxError\<close> of \<^verbatim>\<open>JSON.parse\<close> reaches the caller. When loading a JSON text returns, every
  \<^verbatim>\<open>seenPages\<close> of the result is a \<^verbatim>\<open>Set\<close>.
\<close>

theorem load_empty_or_sets_or_raises:
  "loadSeenRepositories None = Inr (VObj [])
   \<and> loadSeenRepositories (Some EmptyText) = Inr (VObj [])
   \<and> loadSeenRepositories (Some MalformedText) = Inl (ErrorObj SyntaxError syntax_error_message)
   \<and> (loadSeenRepositories (Some (JsonText j)) = Inr w \<longrightarrow> seenPages_are_sets w)"
  using internalize_sets[of "Named []" j w] by (simp add: loadSeenRepositories_def)

theorem load_empty_or_sets_or_raises_witness:
  "loadSeenRepositories (Some (JsonText (JObj [(key_low, JObj [(''seenPages'', JArr [JNum 1, JNum 1, JNum 3])])])))
     = Inr (VObj [(key_low, VObj [(''seenPages'', VSet [VNum 1, VNum 3])])])
   \<and> seenPages_are_sets (VObj [(key_low, VObj [(''seenPages'', VSet [VNum 1, VNum 3])])])"
proof -
  have "loadSeenRepositories (Some (JsonText (JObj [(key_low, JObj [(''seenPages'', JArr [JNum 1, JNum 1, JNum 3])])])))
     = Inr (VObj [(key_low, VObj [(''seenPages'', VSet [VNum 1, VNum 3])])])"
    by code_simp
  with load_empty_or_sets_or_raises[of "JObj [(key_low, JObj [(''seenPages'', JArr [JNum 1, JNum 1, JNum 3])])]"
        "VObj [(key_low, VObj [(''seenPages'', VSet [VNum 1, VNum 3])])]"]
  show ?thesis by blast
qed

theorem load_raises_on_malformed_text:
  "loadSeenRepositories (Some MalformedText) = Inl (ErrorObj SyntaxError syntax_error_message)
   \<and> loadSeenRepositories (Some MalformedText) \<noteq> Inr (VObj [])"
  by (simp add: loadSeenRepositories_def)

section \<open>Selection\<close>

lemma set_obj_set: "set (obj_set ps k v) \<subseteq> insert (k, v) (set ps)"
  by (induction ps) (auto split: if_splits)

lemma seenPages_of_mark:
  "obj_get s k = Some d \<Longrightarrow> seenPages_of (obj_set s k (d\<lparr>exhausted := True\<rparr>)) c = seenPages_of s c"
  by (auto simp: seenPages_of_def obj_get_obj_set)

lemma obj_get_in_set: "obj_get s k = Some d \<Longrightarrow> (k, d) \<in> set s"
  by (simp add: obj_get_def map_of_SomeD)

lemma first_unseen_Some: "first_unseen d n = Some p \<Longrightarrow> p \<notin> set (seenPages d)"
  by (auto simp: first_unseen_def find_Some_iff)

lemma chosen_available:
  "xs \<noteq> [] \<Longrightarrow> xs = availableCriterias e s \<Longrightarrow> \<not> is_exhausted s (xs ! (r mod length xs))"
proof -
  assume a: "xs \<noteq> []" "xs = availableCriterias e s"
  then have "xs ! (r mod length xs) \<in> set xs" by simp
  with a(2) show ?thesis by (simp add: availableCriterias_def)
qed

text \<open>
  C4, as the code has it. \<^verbatim>\<open>getNextSearchParams\<close> answers a criteria whose \<^verbatim>\<open>totalPages\<close> is
  \<^verbatim>\<open>null\<close> or \<open>0\<close> with page 1 without looking at \<^verbatim>\<open>seenPages\<close>. So the claim holds for the
  stores in which no such entry, unless exhausted, has page 1 among its seen pages: then
  the page returned is not among the seen pages of the criteria returned, or else every
  criteria was exhausted, the stored item has been removed and page 1 of the first
  criteria is returned.
\<close>

theorem selectNext_page_unseen:
  assumes "\<forall>(k, d) \<in> set (seen st). totalPages_falsy d \<and> \<not> exhausted d \<longrightarrow> 1 \<notin> set (seenPages d)"
    and "getNextSearchParams e st = (pp, st')"
  shows "(availableCriterias e (seen st') = [] \<and> storage st' = None
            \<and> pp = \<lparr>criteria = first_criteria e, page = 1\<rparr>)
         \<or> page pp \<notin> set (seenPages_of (seen st) (criteria pp))"
  using assms
proof (induction e st arbitrary: pp st' rule: getNextSearchParams.induct)
  case (1 e st0)
  let ?av = "availableCriterias e (seen st0)"
  show ?case
  proof (cases "?av = []")
    case True
    with "1.prems"(2) show ?thesis
      by (subst (asm) getNextSearchParams.simps) (auto simp: Let_def)
  next
    case False
    define c where "c = ?av ! (math_random e (draws st0) mod length ?av)"
    define st1 where "st1 = st0\<lparr>selects := selects st0 + 1, draws := draws st0 + 1\<rparr>"
    have nex: "\<not> is_exhausted (seen st0) c"
      unfolding c_def using False by (intro chosen_available) auto
    show ?thesis
    proof (cases "obj_get (seen st0) (JSON_stringify_criteria c)")
      case None
      with False "1.prems"(2) have "pp = \<lparr>criteria = c, page = 1\<rparr>"
        by (subst (asm) getNextSearchParams.simps) (auto simp: Let_def c_def)
      with None show ?thesis by (simp add: seenPages_of_def)
    next
      case (Some d)
      show ?thesis
      proof (cases "totalPages_falsy d")
        case True
        with Some False "1.prems"(2) have pp: "pp = \<lparr>criteria = c, page = 1\<rparr>"
          by (subst (asm) getNextSearchParams.simps) (auto simp: Let_def c_def)
        from nex Some have "\<not> exhausted d" by (simp add: is_exhausted_def)
        with True "1.prems"(1) obj_get_in_set[OF Some] have "1 \<notin> set (seenPages d)" by auto
        with pp Some show ?thesis by (simp add: seenPages_of_def)
      next
        case nf: False
        show ?thesis
        proof (cases "first_unseen d (effectiveTotalPages d)")
          case (Some p)
          with \<open>obj_get (seen st0) (JSON_stringify_criteria c) = Some d\<close> nf False "1.prems"(2)
          have pp: "pp = \<lparr>criteria = c, page = p\<rparr>"
            by (subst (asm) getNextSearchParams.simps) (auto simp: Let_def c_def)
          with first_unseen_Some[OF Some] \<open>obj_get (seen st0) (JSON_stringify_criteria c) = Some d\<close>
          show ?thesis by (simp add: seenPages_of_def)
        next
          case None
          let ?st2 = "mark_exhausted st1 (JSON_stringify_criteria c) d"
          have rec: "getNextSearchParams e ?st2 = (pp, st')"
            using None Some nf False "1.prems"(2)
            by (subst (asm) getNextSearchParams.simps) (auto simp: Let_def c_def st1_def)
          have seen2: "seen ?st2 = obj_set (seen st0) (JSON_stringify_criteria c) (d\<lparr>exhausted := True\<rparr>)"
            by (simp add: mark_exhausted_def saveSeenRepositories_def st1_def)
          have inv: "\<forall>(k, d) \<in> set (seen ?st2). totalPages_falsy d \<and> \<not> exhausted d \<longrightarrow> 1 \<notin> set (seenPages d)"
            using "1.prems"(1) set_obj_set[of "seen st0" "JSON_stringify_criteria c" "d\<lparr>exhausted := True\<rparr>"]
            unfolding seen2 by auto
          note IH = "1.IH"[OF refl refl _ refl refl refl, of d pp st', simplified]
          have "(availableCriterias e (seen st') = [] \<and> storage st' = None
                  \<and> pp = \<lparr>criteria = first_criteria e, page = 1\<rparr>)
                \<or> page pp \<notin> set (seenPages_of (seen ?st2) (criteria pp))"
            using IH False Some nf None inv rec unfolding c_def st1_def by simp
          then show ?thesis
            by (simp add: seen2 seenPages_of_mark[OF Some])
        qed
      qed
    qed
  qed
qed

theorem selectNext_page_unseen_witness:
  "fst (getNextSearchParams (env_of [c_low, c_top] 0 net_no_results) (st_with store_partial)) = p_low 2
   \<and> page (p_low 2) \<notin> set (seenPages_of (seen (st_with store_partial)) (criteria (p_low 2)))"
proof -
  have inv: "\<forall>(k, d) \<in> set (seen (st_with store_partial)).
               totalPages_falsy d \<and> \<not> exhausted d \<longrightarrow> 1 \<notin> set (seenPages d)"
    by (simp add: st_with_def store_partial_def totalPages_falsy_def)
  have run: "getNextSearchParams (env_of [c_low, c_top] 0 net_no_results) (st_with store_partial)
               = (p_low 2, (st_with store_partial)\<lparr>selects := 1, draws := 1\<rparr>)"
    by code_simp
  have "storage ((st_with store_partial)\<lparr>selects := 1, draws := 1\<rparr>) \<noteq> None"
    by (simp add: st_with_def)
  with selectNext_page_unseen[OF inv run] run show ?thesis
    by auto
qed

theorem selectNext_returns_seen_page:
  "fst (getNextSearchParams (env_of [c_low] 0 net_no_results_once) (st_with store_stale)) = p_low 1
   \<and> page (p_low 1) \<in> set (seenPages_of (seen (st_with store_stale)) (criteria (p_low 1)))
   \<and> availableCriterias (env_of [c_low] 0 net_no_results_once) (seen (st_with store_stale))
       = [criteria (p_low 1)]
   \<and> storage (snd (getNextSearchParams (env_of [c_low] 0 net_no_results_once) (st_with store_stale)))
       = storage (st_with store_stale)"
  by code_simp

lemma stale_store_is_reached:
  "seen (snd (tryFetchWithParams (env_of [c_low] 0 net_no_results_once) 2 (st_with []) (p_low 1)))
     = store_stale"
  by code_simp

text \<open>
  When every criteria of the space (with the language filter merged in) is exhausted in
  \<^verbatim>\<open>seen\<close>, \<^verbatim>\<open>getNextSearchParams\<close> removes the stored item and returns page 1 of the first
  criteria. Nothing else changes: the object \<^verbatim>\<open>seen\<close> keeps every entry.
\<close>

lemma all_exhausted_removes_stored_item:
  assumes "SEARCH_CRITERIAS e = c0 # cs"
    and "\<forall>c \<in> set (SEARCH_CRITERIAS e). is_exhausted (seen st) (with_language e c)"
  shows "getNextSearchParams e st =
           (\<lparr>criteria = with_language e c0, page = 1\<rparr>,
            st\<lparr>selects := selects st + 1, storage := None\<rparr>)"
proof -
  from assms(2) have "availableCriterias e (seen st) = []"
    by (auto simp: availableCriterias_def filter_empty_conv)
  with assms(1) show ?thesis
    by (subst getNextSearchParams.simps) (simp add: Let_def first_criteria_def)
qed

lemma all_exhausted_keeps_seen:
  assumes "SEARCH_CRITERIAS e = c0 # cs"
    and "\<forall>c \<in> set (SEARCH_CRITERIAS e). is_exhausted (seen st) (with_language e c)"
  shows "seen (snd (getNextSearchParams e st)) = seen st" and "seen st \<noteq> []"
proof -
  show "seen (snd (getNextSearchParams e st)) = seen st"
    by (simp add: all_exhausted_removes_stored_item[OF assms])
  from assms have "is_exhausted (seen st) (with_language e c0)"
    by simp
  then show "seen st \<noteq> []"
    by (auto simp: is_exhausted_def obj_get_def)
qed

text \<open>
  C6 at an input where the code departs from it. Both criteria of the space are exhausted.
  \<^verbatim>\<open>getNextSearchParams\<close> returns page 1 of the first criteria and removes the stored item, as
  the comment at line 239 announces (clear seen data and start over), but the SeenStore
  is not cleared: the object \<^verbatim>\<open>seen\<close> still holds both entries, both exhausted, so no
  criteria is available afterwards either, and the next successful fetch of the call saves
  every old entry back into the stored item.
\<close>

theorem reset_leaves_seen_in_place:
  "getNextSearchParams (env_of [c_low, c_top] 1 net_no_results_once)
     ((st_with store_done)\<lparr>fetches := 1\<rparr>)
     = (p_low 1, \<lparr>seen = store_done, storage = None, draws = 0, fetches = 1, selects = 1\<rparr>)
   \<and> length store_done = 2
   \<and> availableCriterias (env_of [c_low, c_top] 1 net_no_results_once)
        (seen (snd (getNextSearchParams (env_of [c_low, c_top] 1 net_no_results_once)
                      ((st_with store_done)\<lparr>fetches := 1\<rparr>)))) = []
   \<and> storage (snd (tryFetchWithParams (env_of [c_low, c_top] 1 net_no_results_once) 1
                     (snd (getNextSearchParams (env_of [c_low, c_top] 1 net_no_results_once)
                             ((st_with store_done)\<lparr>fetches := 1\<rparr>)))
                     (p_low 1)))
       = Some (saved_text
                 [(key_low, \<lparr>seenPages = [1], totalPages = Some 1, exhausted = False\<rparr>),
                  (key_top, \<lparr>seenPages = [1, 2], totalPages = Some 2, exhausted = True\<rparr>)])"
  by code_simp

section \<open>Failed fetches\<close>

lemma rate_limit_message_is_rate_limit: "is_rate_limit (ErrorObj cls rate_limit_message)"
  by (simp add: is_rate_limit_def rate_limit_message_def)

lemma invalid_token_message_not_rate_limit: "\<not> is_rate_limit (ErrorObj cls invalid_token_message)"
  by (simp add: is_rate_limit_def invalid_token_message_def)

lemma page_cap_message_not_rate_limit: "\<not> is_rate_limit (ErrorObj cls page_cap_message)"
  by (simp add: is_rate_limit_def page_cap_message_def)

lemma failed_fetch_message_not_rate_limit: "\<not> is_rate_limit (ErrorObj cls failed_fetch_message)"
  by (simp add: is_rate_limit_def failed_fetch_message_def)


lemma fetch_status:
  assumes "page params \<le> MAX_PAGES"
  shows "fetchRepositoriesPage params (Responds 401 body)
           = Inl (ErrorObj InvalidTokenError invalid_token_message)"
    and "fetchRepositoriesPage params (Responds 403 body)
           = Inl (ErrorObj RateLimitExceededError rate_limit_message)"
    and "fetchRepositoriesPage params (Responds 500 body)
           = Inl (ErrorObj PlainError failed_fetch_message)"
  using assms by (simp_all add: fetchRepositoriesPage_def)

lemma tryFetch_error:
  assumes "fetchRepositoriesPage params (network e (fetches st) params) = Inl err"
  shows "tryFetchWithParams e (Suc fuel) st params =
           (if is_rate_limit err then (Some (Inl err), st\<lparr>fetches := fetches st + 1\<rparr>)
            else case getNextSearchParams e (st\<lparr>fetches := fetches st + 1\<rparr>) of
                   (nextParams, st2) \<Rightarrow> tryFetchWithParams e fuel st2 nextParams)"
  using assms by (simp add: Let_def)

lemma getNext_fetches: "fetches (snd (getNextSearchParams e st)) = fetches st"
proof (induction e st rule: getNextSearchParams.induct)
  case (1 e st0)
  show ?case
    by (subst getNextSearchParams.simps)
       (use 1 in \<open>auto simp: Let_def mark_exhausted_def saveSeenRepositories_def split: option.splits\<close>)
qed

lemma tryFetch_rejects_only_rate_limit:
  "tryFetchWithParams e fuel st params = (Some (Inl err), st') \<Longrightarrow> is_rate_limit err"
proof (induction fuel arbitrary: st params)
  case 0
  then show ?case by simp
next
  case (Suc fuel)
  show ?case
  proof (cases "fetchRepositoriesPage params (network e (fetches st) params)")
    case (Inl err')
    show ?thesis
    proof (cases "is_rate_limit err'")
      case True
      with Suc.prems Inl show ?thesis
        by (simp add: tryFetch_error del: tryFetchWithParams.simps)
    next
      case False
      obtain np st2 where "getNextSearchParams e (st\<lparr>fetches := fetches st + 1\<rparr>) = (np, st2)"
        by (cases "getNextSearchParams e (st\<lparr>fetches := fetches st + 1\<rparr>)")
      with Suc.prems Inl False have "tryFetchWithParams e fuel st2 np = (Some (Inl err), st')"
        by (simp add: tryFetch_error del: tryFetchWithParams.simps)
      then show ?thesis by (rule Suc.IH)
    qed
  next
    case (Inr response)
    show ?thesis
    proof (cases "total_count response = 0")
      case True
      obtain np st2 where
        "getNextSearchParams e (record_no_results (st\<lparr>fetches := fetches st + 1\<rparr>)
           (JSON_stringify_criteria (criteria params))) = (np, st2)"
        by (cases "getNextSearchParams e (record_no_results (st\<lparr>fetches := fetches st + 1\<rparr>)
           (JSON_stringify_criteria (criteria params)))")
      with Suc.prems Inr True have "tryFetchWithParams e fuel st2 np = (Some (Inl err), st')"
        by (simp add: Let_def)
      then show ?thesis by (rule Suc.IH)
    next
      case False
      with Suc.prems Inr show ?thesis by (simp add: Let_def)
    qed
  qed
qed

text \<open>
  C3. If the fetch fails with the \<^verbatim>\<open>RateLimitExceededError\<close> of lines 95-100, then
  \<^verbatim>\<open>tryFetchWithParams\<close> rejects with that very error at once: the object \<^verbatim>\<open>seen\<close> and the
  stored item are as before, and \<^verbatim>\<open>getNextSearchParams\<close> has not been called (the state
  differs only in the count of fetches).
\<close>

theorem rate_limit_propagates_untouched:
  assumes "fetchRepositoriesPage params (network e (fetches st) params)
             = Inl (ErrorObj RateLimitExceededError rate_limit_message)"
  shows "tryFetchWithParams e (Suc fuel) st params =
           (Some (Inl (ErrorObj RateLimitExceededError rate_limit_message)),
            st\<lparr>fetches := fetches st + 1\<rparr>)"
  using assms
  by (simp add: tryFetch_error rate_limit_message_is_rate_limit del: tryFetchWithParams.simps)

theorem rate_limit_propagates_untouched_witness:
  "tryFetchWithParams (env_of [c_low, c_top] 0 net_forbidden) (Suc 3) (st_with store_partial) (p_low 2)
     = (Some (Inl (ErrorObj RateLimitExceededError rate_limit_message)),
        (st_with store_partial)\<lparr>fetches := fetches (st_with store_partial) + 1\<rparr>)
   \<and> seen (snd (tryFetchWithParams (env_of [c_low, c_top] 0 net_forbidden) (Suc 3)
                  (st_with store_partial) (p_low 2))) = store_partial
   \<and> selects (snd (tryFetchWithParams (env_of [c_low, c_top] 0 net_forbidden) (Suc 3)
                  (st_with store_partial) (p_low 2))) = 0"
proof -
  have "fetchRepositoriesPage (p_low 2)
          (network (env_of [c_low, c_top] 0 net_forbidden) (fetches (st_with store_partial)) (p_low 2))
        = Inl (ErrorObj RateLimitExceededError rate_limit_message)"
    by (simp add: env_of_def net_forbidden_def status_only_def p_low_def MAX_PAGES_def fetch_status)
  from rate_limit_propagates_untouched[OF this, of 3]
  show ?thesis by (simp add: st_with_def)
qed



text \<open>
  C1, as the code has it. An \<^verbatim>\<open>InvalidTokenError\<close> (status 401) is not propagated: its message
  lacks \<^verbatim>\<open>'Rate limit exceeded'\<close>, so \<^verbatim>\<open>tryFetchWithParams\<close> swallows it, calls
  \<^verbatim>\<open>getNextSearchParams\<close> and tries the criteria that returns; the promise never rejects with
  the invalid-token error.
\<close>

theorem invalid_token_falls_back:
  assumes "page params \<le> MAX_PAGES"
    and "network e (fetches st) params = Responds 401 body"
  shows "tryFetchWithParams e (Suc fuel) st params =
           (case getNextSearchParams e (st\<lparr>fetches := fetches st + 1\<rparr>) of
              (nextParams, st2) \<Rightarrow> tryFetchWithParams e fuel st2 nextParams)
         \<and> fst (tryFetchWithParams e (Suc fuel) st params)
             \<noteq> Some (Inl (ErrorObj InvalidTokenError invalid_token_message))"
proof
  from assms have "fetchRepositoriesPage params (network e (fetches st) params)
                     = Inl (ErrorObj InvalidTokenError invalid_token_message)"
    by (simp add: fetch_status)
  then show "tryFetchWithParams e (Suc fuel) st params =
           (case getNextSearchParams e (st\<lparr>fetches := fetches st + 1\<rparr>) of
              (nextParams, st2) \<Rightarrow> tryFetchWithParams e fuel st2 nextParams)"
    by (simp add: tryFetch_error invalid_token_message_not_rate_limit del: tryFetchWithParams.simps)
next
  show "fst (tryFetchWithParams e (Suc fuel) st params)
          \<noteq> Some (Inl (ErrorObj InvalidTokenError invalid_token_message))"
  proof
    assume "fst (tryFetchWithParams e (Suc fuel) st params)
              = Some (Inl (ErrorObj InvalidTokenError invalid_token_message))"
    then have "tryFetchWithParams e (Suc fuel) st params
                 = (Some (Inl (ErrorObj InvalidTokenError invalid_token_message)),
                    snd (tryFetchWithParams e (Suc fuel) st params))"
      by (metis prod.collapse)
    then have "is_rate_limit (ErrorObj InvalidTokenError invalid_token_message)"
      by (rule tryFetch_rejects_only_rate_limit)
    then show False
      by (simp add: invalid_token_message_not_rate_limit)
  qed
qed

theorem invalid_token_falls_back_witness:
  "tryFetchWithParams (env_of [c_low, c_top] 1 net_unauthorized_once) (Suc 1) (st_with []) (p_low 1)
     = (Some (Inr \<lparr>response_total_count = 25, response_items = [(7, key_top)],
                   nextPage = \<lparr>criteria = [(''stars'', Some ''>50000''), (''language'', None)],
                               page = 2\<rparr>\<rparr>),
        \<lparr>seen = [(key_top, \<lparr>seenPages = [1], totalPages = Some 3, exhausted = False\<rparr>)],
         storage = Some (saved_text [(key_top, \<lparr>seenPages = [1], totalPages = Some 3, exhausted = False\<rparr>)]),
         draws = 1, fetches = 2, selects = 1\<rparr>)"
proof -
  have cap: "page (p_low 1) \<le> MAX_PAGES"
    by (simp add: p_low_def MAX_PAGES_def)
  have net: "network (env_of [c_low, c_top] 1 net_unauthorized_once) (fetches (st_with [])) (p_low 1)
               = Responds 401 (Inl NonError)"
    by (simp add: env_of_def net_unauthorized_once_def status_only_def st_with_def)
  have "(case getNextSearchParams (env_of [c_low, c_top] 1 net_unauthorized_once)
                ((st_with [])\<lparr>fetches := fetches (st_with []) + 1\<rparr>) of
           (nextParams, st2) \<Rightarrow>
             tryFetchWithParams (env_of [c_low, c_top] 1 net_unauthorized_once) 1 st2 nextParams)
        = (Some (Inr \<lparr>response_total_count = 25, response_items = [(7, key_top)],
                      nextPage = \<lparr>criteria = [(''stars'', Some ''>50000''), (''language'', None)],
                                  page = 2\<rparr>\<rparr>),
           \<lparr>seen = [(key_top, \<lparr>seenPages = [1], totalPages = Some 3, exhausted = False\<rparr>)],
            storage = Some (saved_text [(key_top, \<lparr>seenPages = [1], totalPages = Some 3, exhausted = False\<rparr>)]),
            draws = 1, fetches = 2, selects = 1\<rparr>)"
    by code_simp
  with invalid_token_falls_back[OF cap net, of 1] show ?thesis
    by simp
qed

theorem invalid_token_not_propagated:
  "fst (tryFetchWithParams (env_of [c_low, c_top] 1 net_unauthorized_once) 2 (st_with []) (p_low 1))
     = Some (Inr \<lparr>response_total_count = 25, response_items = [(7, key_top)],
                  nextPage = \<lparr>criteria = [(''stars'', Some ''>50000''), (''language'', None)],
                              page = 2\<rparr>\<rparr>)
   \<and> selects (snd (tryFetchWithParams (env_of [c_low, c_top] 1 net_unauthorized_once) 2
                     (st_with []) (p_low 1))) = 1
   \<and> seen (snd (tryFetchWithParams (env_of [c_low, c_top] 1 net_unauthorized_once) 2
                  (st_with []) (p_low 1)))
       = [(key_top, \<lparr>seenPages = [1], totalPages = Some 3, exhausted = False\<rparr>)]"
  by code_simp

text \<open>
  C2, as the code has it. Nothing bounds the fallback. When every fetch fails with an error
  that is not a rate limit, no number of calls is enough: after \<open>fuel\<close> calls
  \<^verbatim>\<open>tryFetchWithParams\<close> has made \<open>fuel\<close> fetches and is about to make another, whatever the
  size of the criteria space. The error is never propagated.
\<close>

theorem fallback_never_gives_up:
  assumes "\<forall>k p. \<exists>err. fetchRepositoriesPage p (network e k p) = Inl err \<and> \<not> is_rate_limit err"
  shows "fst (tryFetchWithParams e fuel st params) = None
         \<and> fetches (snd (tryFetchWithParams e fuel st params)) = fetches st + fuel"
proof (induction fuel arbitrary: st params)
  case 0
  show ?case by simp
next
  case (Suc fuel)
  from assms obtain err where
    err: "fetchRepositoriesPage params (network e (fetches st) params) = Inl err" "\<not> is_rate_limit err"
    by blast
  obtain np st2 where sel: "getNextSearchParams e (st\<lparr>fetches := fetches st + 1\<rparr>) = (np, st2)"
    by (cases "getNextSearchParams e (st\<lparr>fetches := fetches st + 1\<rparr>)")
  then have "fetches st2 = fetches st + 1"
    using getNext_fetches[of e "st\<lparr>fetches := fetches st + 1\<rparr>"] by simp
  moreover have "tryFetchWithParams e (Suc fuel) st params = tryFetchWithParams e fuel st2 np"
    using err sel by (simp add: tryFetch_error del: tryFetchWithParams.simps)
  ultimately show ?case
    using Suc.IH[of st2 np] by simp
qed

theorem fallback_never_gives_up_witness:
  "fst (tryFetchWithParams (env_of [c_low, c_top] 0 net_server_error) 7 (st_with []) (p_low 1)) = None
   \<and> fetches (snd (tryFetchWithParams (env_of [c_low, c_top] 0 net_server_error) 7
                     (st_with []) (p_low 1))) = 7"
proof -
  have "\<forall>k p. \<exists>err. fetchRepositoriesPage p (network (env_of [c_low, c_top] 0 net_server_error) k p) = Inl err
                      \<and> \<not> is_rate_limit err"
    by (auto simp: env_of_def net_server_error_def status_only_def fetchRepositoriesPage_def
          page_cap_message_not_rate_limit failed_fetch_message_not_rate_limit)
  from fallback_never_gives_up[OF this, of 7 "st_with []" "p_low 1"]
  show ?thesis by (simp add: st_with_def)
qed

theorem fallback_exceeds_criteria_space:
  "length (SEARCH_CRITERIAS (env_of [c_low] 0 net_server_error)) = 1
   \<and> tryFetchWithParams (env_of [c_low] 0 net_server_error) 4 (st_with []) (p_low 1)
       = (None, \<lparr>seen = [], storage = Some (saved_text []), draws = 4, fetches = 4, selects = 4\<rparr>)"
  by code_simp

section \<open>A fetch with no results\<close>

text \<open>
  C5 at an input where the code departs from it. The criteria already has an entry
  (page 1 of 3 seen) and the fetch of page 2 reports no results. The entry is kept as it is,
  not exhausted, so the same criteria and page are selected again, and again.
\<close>

theorem no_results_keeps_existing_entry:
  "obj_get (seen (record_no_results (st_with store_partial) key_low)) key_low
     = Some \<lparr>seenPages = [1], totalPages = Some 3, exhausted = False\<rparr>
   \<and> fst (getNextSearchParams (env_of [c_low, c_top] 0 net_no_results)
            (record_no_results (st_with store_partial) key_low)) = p_low 2
   \<and> tryFetchWithParams (env_of [c_low, c_top] 0 net_no_results) 3 (st_with store_partial) (p_low 2)
       = (None, \<lparr>seen = store_partial, storage = Some (saved_text store_partial),
                 draws = 3, fetches = 3, selects = 3\<rparr>)"
  by code_simp

lemma no_results_marks_new_criteria:
  assumes "obj_get (seen st) k = None"
  shows "obj_get (seen (record_no_results st k)) k
           = Some \<lparr>seenPages = [], totalPages = Some 0, exhausted = True\<rparr>"
    and "storage (record_no_results st k) = Some (saved_text (seen (record_no_results st k)))"
  using assms by (simp_all add: record_no_results_def saveSeenRepositories_def obj_get_obj_set Let_def)

end
